theory Spec2Isabelle
  imports Complex_Main "HOL-Library.Multiset"
begin

section \<open>Data model\<close>

text \<open>
  The exceptions the code of \<^verbatim>\<open>base_dataset.py\<close> can raise. \<open>ReError\<close> is the error of
  \<^verbatim>\<open>re.compile\<close> on a malformed pattern, \<open>SamplerError\<close> any error raised by the random
  sampler \<^verbatim>\<open>np.random.choice\<close>.
\<close>

datatype error =
    FileNotFoundError
  | StopIteration
  | ReError
  | SamplerError
  | NotImplementedError
  | ValueError string
  | IndexError

text \<open>
  The processed-data directory: the files it holds, each a name with its lines, in the order
  \<^verbatim>\<open>os.listdir\<close> reports them. A line is the string handed to \<^verbatim>\<open>f.write\<close>.
\<close>

type_synonym dir = "(string \<times> string list) list"

definition isfile :: "dir \<Rightarrow> string \<Rightarrow> bool" where
  "isfile d p = (p \<in> set (map fst d))"

definition os_remove :: "dir \<Rightarrow> string \<Rightarrow> dir" where
  "os_remove d p = filter (\<lambda>e. fst e \<noteq> p) d"

text \<open>\<^verbatim>\<open>if os.path.isfile(p): os.remove(p)\<close>\<close>

definition remove_if_file :: "dir \<Rightarrow> string \<Rightarrow> dir" where
  "remove_if_file d p = (if isfile d p then os_remove d p else d)"

text \<open>
  \<^verbatim>\<open>with open(p, 'a') as f: f.write(line)\<close>: the file is created when it is absent. The
  directory is flat, it has no subdirectory: a name with a path separator leads through a
  directory that does not exist, and \<^verbatim>\<open>open\<close> raises \<^verbatim>\<open>FileNotFoundError\<close>.
\<close>

definition append_line :: "dir \<Rightarrow> string \<Rightarrow> string \<Rightarrow> error + dir" where
  "append_line d p l =
     (if CHR ''/'' \<in> set p then Inl FileNotFoundError
      else if isfile d p
        then Inr (map (\<lambda>e. if fst e = p then (fst e, snd e @ [l]) else e) d)
        else Inr (d @ [(p, [l])]))"

definition content :: "dir \<Rightarrow> string \<Rightarrow> string list" where
  "content d p = (case map_of d p of None \<Rightarrow> [] | Some ls \<Rightarrow> ls)"

text \<open>
  The configuration \<^verbatim>\<open>cfg.dataset\<close> (with \<^verbatim>\<open>cfg.hyperparameters.batch_size\<close>). A mapping of
  the configuration is an association list in key order; an optional key is an option.
  Weights are numbers; the floating-point division by 100 is taken exactly.
\<close>

record config =
  splits :: "(string \<times> rat) list"
  withholding :: "string list option"
  tracking :: "(string \<times> string) list option"
  source_format :: string
  target_format :: string
  transform_field :: string
  overwrite :: bool
  batch_size :: nat

section \<open>Token decoder\<close>

text \<open>\<^verbatim>\<open>vocab.itos[i]\<close>: a Python list read, negative indices counting from the end.\<close>

definition itos_lookup :: "string list \<Rightarrow> int \<Rightarrow> error + string" where
  "itos_lookup itos i =
     (let n = int (length itos); j = (if i < 0 then n + i else i)
      in if 0 \<le> j \<and> j < n then Inr (itos ! nat j) else Inl IndexError)"

definition specials :: "string list" where
  "specials = [''<sos>'', ''<eos>'', ''<pad>'']"

text \<open>
  The first loop of \<^verbatim>\<open>id_to_token\<close> fills an array of \<^verbatim>\<open>None\<close> cell by cell; a cell
  stays \<^verbatim>\<open>None\<close> when its token is special and \<^verbatim>\<open>show_special\<close> is off.
\<close>

fun fill_row :: "string list \<Rightarrow> bool \<Rightarrow> int list \<Rightarrow> error + string option list" where
  "fill_row itos show_special [] = Inr []"
| "fill_row itos show_special (i # r) =
     (case itos_lookup itos i of
        Inl e \<Rightarrow> Inl e
      | Inr s \<Rightarrow>
          (case fill_row itos show_special r of
             Inl e \<Rightarrow> Inl e
           | Inr cells \<Rightarrow>
               Inr ((if s \<notin> set specials \<or> show_special then Some s else None) # cells)))"

fun fill_rows :: "string list \<Rightarrow> bool \<Rightarrow> int list list \<Rightarrow> error + string option list list" where
  "fill_rows itos show_special [] = Inr []"
| "fill_rows itos show_special (r # rs) =
     (case fill_row itos show_special r of
        Inl e \<Rightarrow> Inl e
      | Inr cells \<Rightarrow>
          (case fill_rows itos show_special rs of
             Inl e \<Rightarrow> Inl e
           | Inr outputs \<Rightarrow> Inr (cells # outputs)))"

text \<open>\<^verbatim>\<open>r[r != np.array(None)]\<close>: the cells of a row that are not \<^verbatim>\<open>None\<close>, in order.\<close>

definition compact_row :: "string option list \<Rightarrow> string list" where
  "compact_row r = map the (filter (\<lambda>c. c \<noteq> None) r)"

text \<open>The part of the object that \<^verbatim>\<open>id_to_token\<close> reads: the two vocabularies.\<close>

record vocabs =
  source_vocab :: "string list"
  target_vocab :: "string list"

definition id_to_token :: "'a vocabs_scheme \<Rightarrow> int list list \<Rightarrow> string \<Rightarrow> bool \<Rightarrow> error + string list list" where
  "id_to_token self idx_tensor vocab_str show_special =
     (let vocab = (if vocab_str = ''source'' then source_vocab self else target_vocab self)
      in case fill_rows vocab show_special idx_tensor of
           Inl e \<Rightarrow> Inl e
         | Inr outputs \<Rightarrow> Inr (map compact_row outputs))"

text \<open>
  What the decoder is said to return, in the words of its contract: a row decoded token by
  token, and the decoded row without the special tokens.
\<close>

definition decode_row :: "string list \<Rightarrow> int list \<Rightarrow> string list" where
  "decode_row itos r = map (\<lambda>i. itos ! nat (if i < 0 then int (length itos) + i else i)) r"

definition without_specials :: "string list \<Rightarrow> string list" where
  "without_specials ts = filter (\<lambda>s. s \<noteq> ''<sos>'' \<and> s \<noteq> ''<eos>'' \<and> s \<noteq> ''<pad>'') ts"

definition valid_index :: "string list \<Rightarrow> int \<Rightarrow> bool" where
  "valid_index itos i = (- int (length itos) \<le> i \<and> i < int (length itos))"

section \<open>String helpers\<close>

text \<open>
  \<^verbatim>\<open>str.lower\<close> on the ASCII letters; the strings compared against are ASCII, and a
  character outside the table is left as it is.
\<close>

definition lower_char :: "char \<Rightarrow> char" where
  "lower_char c =
     (case map_of (zip ''ABCDEFGHIJKLMNOPQRSTUVWXYZ'' ''abcdefghijklmnopqrstuvwxyz'') c of
        None \<Rightarrow> c
      | Some l \<Rightarrow> l)"

definition lower :: "string \<Rightarrow> string" where
  "lower s = map lower_char s"

text \<open>Two strings that differ at most in the case of their letters.\<close>

definition same_ignoring_case :: "string \<Rightarrow> string \<Rightarrow> bool" where
  "same_ignoring_case a b = list_all2 (\<lambda>x y. lower_char x = lower_char y) a b"

text \<open>\<^verbatim>\<open>sep.join(xs)\<close>\<close>

definition join :: "string \<Rightarrow> string list \<Rightarrow> string" where
  "join sep xs = (case xs of [] \<Rightarrow> [] | x # r \<Rightarrow> foldl (\<lambda>acc y. acc @ sep @ y) x r)"

text \<open>\<^verbatim>\<open>file.endswith(suf)\<close> and \<^verbatim>\<open>file.split('.')[0]\<close>\<close>

definition endswith :: "string \<Rightarrow> string \<Rightarrow> bool" where
  "endswith s suf = (length suf \<le> length s \<and> drop (length s - length suf) s = suf)"

definition split_name :: "string \<Rightarrow> string" where
  "split_name file = takeWhile (\<lambda>c. c \<noteq> CHR ''.'') file"

section \<open>Split generators\<close>

text \<open>\<^verbatim>\<open>os.path.join(self._processed_path, s + '.pt')\<close>, as a name in the directory.\<close>

definition split_path :: "string \<Rightarrow> string" where
  "split_path s = s @ ''.pt''"

definition g_path :: string where
  "g_path = ''gen.pt''"

definition s_paths :: "config \<Rightarrow> string list" where
  "s_paths cfg = map split_path (map fst (splits cfg))"

definition s_probs :: "config \<Rightarrow> rat list" where
  "s_probs cfg = map (\<lambda>p. p / 100) (map snd (splits cfg))"

text \<open>
  \<^verbatim>\<open>'withholding' in cfg.dataset.keys() and bool(to_withhold.search(line))\<close>, and the
  loop over the data lines of \<^verbatim>\<open>_create_regular_splits\<close>. Three library functions are
  parameters: \<open>rs\<close> is \<^verbatim>\<open>pattern.search\<close> (as a truth value), \<open>ch\<close> is
  \<^verbatim>\<open>np.random.choice(a, p=p)\<close> with the generator's state threaded through, and
  \<open>to_withhold\<close> is the compiled withholding pattern, \<open>None\<close> when the key
  \<^verbatim>\<open>withholding\<close> is absent.
\<close>

definition is_withheld :: "('rx \<Rightarrow> string \<Rightarrow> bool) \<Rightarrow> 'rx option \<Rightarrow> string \<Rightarrow> bool" where
  "is_withheld rs to_withhold line =
     (case to_withhold of None \<Rightarrow> False | Some rx \<Rightarrow> rs rx line)"

fun route_lines ::
  "('g \<Rightarrow> string list \<Rightarrow> rat list \<Rightarrow> error + string \<times> 'g) \<Rightarrow> ('rx \<Rightarrow> string \<Rightarrow> bool) \<Rightarrow>
   'rx option \<Rightarrow> string list \<Rightarrow> rat list \<Rightarrow> string list \<Rightarrow> dir \<Rightarrow> 'g \<Rightarrow> error + dir \<times> 'g" where
  "route_lines ch rs to_withhold paths probs [] d g = Inr (d, g)"
| "route_lines ch rs to_withhold paths probs (line # rest) d g =
     (if is_withheld rs to_withhold line
      then (case append_line d g_path line of
              Inl e \<Rightarrow> Inl e
            | Inr d1 \<Rightarrow> route_lines ch rs to_withhold paths probs rest d1 g)
      else (case ch g paths probs of
              Inl e \<Rightarrow> Inl e
            | Inr (split, g') \<Rightarrow>
                (case append_line d split line of
                   Inl e \<Rightarrow> Inl e
                 | Inr d1 \<Rightarrow> route_lines ch rs to_withhold paths probs rest d1 g')))"

text \<open>The first block: compile the withholding pattern and delete an old gen file.\<close>

definition prepare_withholding ::
  "(string \<Rightarrow> 'rx option) \<Rightarrow> config \<Rightarrow> dir \<Rightarrow> error + 'rx option \<times> dir" where
  "prepare_withholding rc cfg d =
     (case withholding cfg of
        None \<Rightarrow> Inr (None, d)
      | Some pats \<Rightarrow>
          (case rc (join ''|'' pats) of
             None \<Rightarrow> Inl ReError
           | Some rx \<Rightarrow> Inr (Some rx, remove_if_file d g_path)))"

definition create_regular_splits ::
  "(string \<Rightarrow> 'rx option) \<Rightarrow> ('rx \<Rightarrow> string \<Rightarrow> bool) \<Rightarrow>
   ('g \<Rightarrow> string list \<Rightarrow> rat list \<Rightarrow> error + string \<times> 'g) \<Rightarrow>
   config \<Rightarrow> string list option \<Rightarrow> dir \<Rightarrow> 'g \<Rightarrow> error + dir \<times> 'g" where
  "create_regular_splits rc rs ch cfg raw d g =
     (case prepare_withholding rc cfg d of
        Inl e \<Rightarrow> Inl e
      | Inr (to_withhold, d1) \<Rightarrow>
          (let d2 = fold (\<lambda>split acc. remove_if_file acc split) (s_paths cfg) d1
           in case raw of
                None \<Rightarrow> Inl FileNotFoundError
              | Some [] \<Rightarrow> Inl StopIteration
              | Some (header # raw_data) \<Rightarrow>
                  route_lines ch rs to_withhold (s_paths cfg) (s_probs cfg) raw_data d2 g))"

text \<open>\<^verbatim>\<open>[re.compile(t) for t in t_patterns]\<close>: the first malformed pattern raises.\<close>

fun compile_all :: "(string \<Rightarrow> 'rx option) \<Rightarrow> string list \<Rightarrow> error + 'rx list" where
  "compile_all rc [] = Inr []"
| "compile_all rc (t # ts) =
     (case rc t of
        None \<Rightarrow> Inl ReError
      | Some rx \<Rightarrow> (case compile_all rc ts of Inl e \<Rightarrow> Inl e | Inr rxs \<Rightarrow> Inr (rx # rxs)))"

text \<open>The inner loop of \<^verbatim>\<open>_create_tracking_splits\<close> over the patterns, for one line.\<close>

fun track_line ::
  "('rx \<Rightarrow> string \<Rightarrow> bool) \<Rightarrow> (string \<times> 'rx) list \<Rightarrow> string \<Rightarrow> dir \<Rightarrow> error + dir" where
  "track_line rs [] line d = Inr d"
| "track_line rs ((path, pattern) # rest) line d =
     (if rs pattern line
      then (case append_line d path line of
              Inl e \<Rightarrow> Inl e
            | Inr d1 \<Rightarrow> track_line rs rest line d1)
      else track_line rs rest line d)"

text \<open>The outer loop over the data lines.\<close>

fun track_lines ::
  "('rx \<Rightarrow> string \<Rightarrow> bool) \<Rightarrow> (string \<times> 'rx) list \<Rightarrow> string list \<Rightarrow> dir \<Rightarrow> error + dir" where
  "track_lines rs prs [] d = Inr d"
| "track_lines rs prs (line # rest) d =
     (case track_line rs prs line d of
        Inl e \<Rightarrow> Inl e
      | Inr d1 \<Rightarrow> track_lines rs prs rest d1)"

definition t_paths :: "(string \<times> string) list \<Rightarrow> string list" where
  "t_paths tr = map split_path (map fst tr)"

definition create_tracking_splits ::
  "(string \<Rightarrow> 'rx option) \<Rightarrow> ('rx \<Rightarrow> string \<Rightarrow> bool) \<Rightarrow>
   config \<Rightarrow> string list option \<Rightarrow> dir \<Rightarrow> error + dir" where
  "create_tracking_splits rc rs cfg raw d =
     (case tracking cfg of
        None \<Rightarrow> Inr d
      | Some tr \<Rightarrow>
          (case compile_all rc (map snd tr) of
             Inl e \<Rightarrow> Inl e
           | Inr t_patterns \<Rightarrow>
               (let d1 = fold (\<lambda>path acc. remove_if_file acc path) (t_paths tr) d
                in case raw of
                     None \<Rightarrow> Inl FileNotFoundError
                   | Some [] \<Rightarrow> Inl StopIteration
                   | Some (header # raw_data) \<Rightarrow>
                       track_lines rs (zip (t_paths tr) t_patterns) raw_data d1)))"

definition process_raw_data ::
  "(string \<Rightarrow> 'rx option) \<Rightarrow> ('rx \<Rightarrow> string \<Rightarrow> bool) \<Rightarrow>
   ('g \<Rightarrow> string list \<Rightarrow> rat list \<Rightarrow> error + string \<times> 'g) \<Rightarrow>
   config \<Rightarrow> string list option \<Rightarrow> dir \<Rightarrow> 'g \<Rightarrow> error + dir \<times> 'g" where
  "process_raw_data rc rs ch cfg raw d g =
     (case create_regular_splits rc rs ch cfg raw d g of
        Inl e \<Rightarrow> Inl e
      | Inr (d1, g') \<Rightarrow>
          (case create_tracking_splits rc rs cfg raw d1 of
             Inl e \<Rightarrow> Inl e
           | Inr d2 \<Rightarrow> Inr (d2, g')))"

text \<open>
  The first step of \<^verbatim>\<open>__init__\<close>. The processed-data path is \<open>None\<close> when it does not
  exist: it is then made, empty, and filled.
\<close>

definition init_files ::
  "(string \<Rightarrow> 'rx option) \<Rightarrow> ('rx \<Rightarrow> string \<Rightarrow> bool) \<Rightarrow>
   ('g \<Rightarrow> string list \<Rightarrow> rat list \<Rightarrow> error + string \<times> 'g) \<Rightarrow>
   config \<Rightarrow> string list option \<Rightarrow> dir option \<Rightarrow> 'g \<Rightarrow> error + dir \<times> 'g" where
  "init_files rc rs ch cfg raw processed g =
     (case processed of
        None \<Rightarrow> process_raw_data rc rs ch cfg raw [] g
      | Some d \<Rightarrow> if overwrite cfg then process_raw_data rc rs ch cfg raw d g else Inr (d, g))"

section \<open>Datasets and iterators\<close>

text \<open>
  Modelled from the spec: the tabular reader of the third-party text-processing library, which
  is not part of this repository ("a tabular reader (tab-separated, header row skipped, three
  columns)"). A record of the file is one line; \<open>mk\<close> parses a line into an example. Skipping
  the header row of a file with no line raises, as \<^verbatim>\<open>next\<close> does.
\<close>

definition TabularDataset :: "(string \<Rightarrow> 'ex) \<Rightarrow> string list \<Rightarrow> bool \<Rightarrow> error + 'ex list" where
  "TabularDataset mk lines skip_header =
     (if skip_header
      then (case lines of [] \<Rightarrow> Inl StopIteration | header # rest \<Rightarrow> Inr (map mk rest))
      else Inr (map mk lines))"

datatype field = SourceField | TargetField

record 'ex bucket_iterator =
  it_dataset :: "'ex list"
  it_batch_size :: nat

record 'ex loaders =
  transform_fld :: field
  iterators :: "(string \<times> 'ex bucket_iterator) list"
  in_sample_data :: "'ex list list"

text \<open>\<^verbatim>\<open>d[k] = v\<close> on a dict kept in insertion order.\<close>

definition dict_set :: "'k \<Rightarrow> 'v \<Rightarrow> ('k \<times> 'v) list \<Rightarrow> ('k \<times> 'v) list" where
  "dict_set k v m =
     (if k \<in> set (map fst m) then map (\<lambda>e. if fst e = k then (k, v) else e) m else m @ [(k, v)])"

text \<open>The loop of \<^verbatim>\<open>_create_iterators\<close> over \<^verbatim>\<open>os.listdir\<close>.\<close>

fun load_files :: "(string \<Rightarrow> 'ex) \<Rightarrow> nat \<Rightarrow> dir \<Rightarrow> 'ex loaders \<Rightarrow> error + 'ex loaders" where
  "load_files mk bs [] st = Inr st"
| "load_files mk bs ((file, lines) # rest) st =
     (if endswith file ''.pt'' then
        (case TabularDataset mk lines True of
           Inl e \<Rightarrow> Inl e
         | Inr dataset \<Rightarrow>
             (let split = split_name file;
                  iterator = \<lparr>it_dataset = dataset, it_batch_size = bs\<rparr>;
                  st1 = st\<lparr>iterators := dict_set split iterator (iterators st)\<rparr>;
                  st2 = (if split \<in> set [''train'', ''test'', ''val'']
                         then st1\<lparr>in_sample_data := in_sample_data st1 @ [dataset]\<rparr>
                         else st1)
              in load_files mk bs rest st2))
      else load_files mk bs rest st)"

text \<open>
  \<^verbatim>\<open>_create_iterators\<close>: the messages given to \<^verbatim>\<open>log.error\<close>, and the result.
\<close>

definition create_iterators ::
  "(string \<Rightarrow> 'ex) \<Rightarrow> config \<Rightarrow> dir \<Rightarrow> string list \<times> (error + 'ex loaders)" where
  "create_iterators mk cfg d =
     (let source_fmt = lower (source_format cfg);
          target_fmt = lower (target_format cfg);
          trns_field = lower (transform_field cfg)
      in if source_fmt = ''sequence'' \<and> target_fmt = ''sequence'' then
           (if trns_field = ''source'' then
              ([], load_files mk (batch_size cfg) d
                     \<lparr>transform_fld = SourceField, iterators = [], in_sample_data = []\<rparr>)
            else if trns_field = ''target'' then
              ([], load_files mk (batch_size cfg) d
                     \<lparr>transform_fld = TargetField, iterators = [], in_sample_data = []\<rparr>)
            else
              ([''`transform_field` must be either 'source' or 'target'; you supplied ''
                  @ trns_field @ ''!''],
               Inl (ValueError (''Invalid `transform_field`: '' @ trns_field))))
         else ([], Inl NotImplementedError))"

record 'ex transduction_dataset = vocabs +
  loaded :: "'ex loaders"

text \<open>
  \<^verbatim>\<open>__init__\<close> after the files are in place. \<open>bv f t ds\<close> is the library's
  \<^verbatim>\<open>build_vocab\<close> for field \<open>f\<close> over the datasets \<open>ds\<close>, whose annotation column is read
  with field \<open>t\<close>; it returns the vocabulary's list of tokens. Pickling the two fields
  into the working directory is left out.
\<close>

definition build_dataset ::
  "(string \<Rightarrow> 'ex) \<Rightarrow> (field \<Rightarrow> field \<Rightarrow> 'ex list list \<Rightarrow> string list) \<Rightarrow>
   config \<Rightarrow> dir \<Rightarrow> error + 'ex transduction_dataset" where
  "build_dataset mk bv cfg d =
     (case snd (create_iterators mk cfg d) of
        Inl e \<Rightarrow> Inl e
      | Inr st \<Rightarrow>
          Inr \<lparr>source_vocab = bv SourceField (transform_fld st) (in_sample_data st),
               target_vocab = bv TargetField (transform_fld st) (in_sample_data st),
               loaded = st\<rparr>)"

definition dataset_init ::
  "(string \<Rightarrow> 'rx option) \<Rightarrow> ('rx \<Rightarrow> string \<Rightarrow> bool) \<Rightarrow>
   ('g \<Rightarrow> string list \<Rightarrow> rat list \<Rightarrow> error + string \<times> 'g) \<Rightarrow>
   (string \<Rightarrow> 'ex) \<Rightarrow> (field \<Rightarrow> field \<Rightarrow> 'ex list list \<Rightarrow> string list) \<Rightarrow>
   config \<Rightarrow> string list option \<Rightarrow> dir option \<Rightarrow> 'g \<Rightarrow>
   error + 'ex transduction_dataset \<times> dir \<times> 'g" where
  "dataset_init rc rs ch mk bv cfg raw processed g =
     (case init_files rc rs ch cfg raw processed g of
        Inl e \<Rightarrow> Inl e
      | Inr (d, g') \<Rightarrow>
          (case build_dataset mk bv cfg d of
             Inl e \<Rightarrow> Inl e
           | Inr self \<Rightarrow> Inr (self, d, g')))"

section \<open>Notions used to state the properties\<close>

text \<open>
  What is required of the sampler: a draw that succeeds returns one of its candidates.
\<close>

definition draws_from_candidates ::
  "('g \<Rightarrow> string list \<Rightarrow> rat list \<Rightarrow> error + string \<times> 'g) \<Rightarrow> bool" where
  "draws_from_candidates ch = (\<forall>g a p x g'. ch g a p = Inr (x, g') \<longrightarrow> x \<in> set a)"

text \<open>
  Given the file chosen for each data line, the lines that go to file \<open>q\<close>, in corpus order.
\<close>

definition assigned :: "string list \<Rightarrow> string list \<Rightarrow> string \<Rightarrow> string list" where
  "assigned ls dest q = map fst (filter (\<lambda>e. snd e = q) (zip ls dest))"

text \<open>
  The files of the regular splits of a configuration (the gen file when withholding patterns
  are configured), and with them the files of its tracking patterns.
\<close>

definition regular_files :: "config \<Rightarrow> string set" where
  "regular_files cfg =
     set (s_paths cfg) \<union> (case withholding cfg of None \<Rightarrow> {} | Some pats \<Rightarrow> {g_path})"



text \<open>The compiled withholding pattern of a configuration, if it has one.\<close>

definition compiled_withholding :: "(string \<Rightarrow> 'rx option) \<Rightarrow> config \<Rightarrow> 'rx option" where
  "compiled_withholding rc cfg =
     (case withholding cfg of None \<Rightarrow> None | Some pats \<Rightarrow> rc (join ''|'' pats))"

text \<open>
  The algorithm of the split generator in the words of its contract: the file each data line
  is to go to. A line the withholding test \<open>W\<close> holds of goes to the gen file; for any other
  line the sampler is asked to draw among the split files with the given probabilities.
\<close>

fun spec_destinations ::
  "('g \<Rightarrow> string list \<Rightarrow> rat list \<Rightarrow> error + string \<times> 'g) \<Rightarrow> (string \<Rightarrow> bool) \<Rightarrow>
   string list \<Rightarrow> rat list \<Rightarrow> string list \<Rightarrow> 'g \<Rightarrow> error + string list \<times> 'g" where
  "spec_destinations ch W files probs [] g = Inr ([], g)"
| "spec_destinations ch W files probs (line # rest) g =
     (if W line
      then (case spec_destinations ch W files probs rest g of
              Inl e \<Rightarrow> Inl e
            | Inr (dest, g') \<Rightarrow> Inr (''gen.pt'' # dest, g'))
      else (case ch g files probs of
              Inl e \<Rightarrow> Inl e
            | Inr (file, g1) \<Rightarrow>
                (case spec_destinations ch W files probs rest g1 of
                   Inl e \<Rightarrow> Inl e
                 | Inr (dest, g') \<Rightarrow> Inr (file # dest, g'))))"





section \<open>Library stand-ins for the worked examples\<close>

text \<open>
  Concrete values for the library parameters, used only to run the model on examples: a
  sampler that walks round its candidates (its state counts the draws), and patterns that
  always compile and match a line that starts with them.
\<close>

definition rr_choice :: "nat \<Rightarrow> string list \<Rightarrow> rat list \<Rightarrow> error + string \<times> nat" where
  "rr_choice g a p = (if a = [] then Inl SamplerError else Inr (a ! (g mod length a), Suc g))"

definition lit_compile :: "string \<Rightarrow> string option" where
  "lit_compile t = Some t"

definition lit_search :: "string \<Rightarrow> string \<Rightarrow> bool" where
  "lit_search rx line = (take (length rx) line = rx)"





















definition demo_vocabs :: vocabs where
  "demo_vocabs =
     \<lparr>source_vocab = [''<unk>'', ''<pad>'', ''<sos>'', ''<eos>'', ''a'', ''b''],
      target_vocab = [''<unk>'', ''<pad>'', ''<sos>'', ''<eos>'', ''x'', ''y'']\<rparr>"

definition demo_withholding_config :: config where
  "demo_withholding_config =
     \<lparr>splits = [(''train'', 80), (''val'', 20)], withholding = Some [''w''], tracking = None,
      source_format = ''sequence'', target_format = ''sequence'', transform_field = ''source'',
      overwrite = True, batch_size = 2\<rparr>"


definition demo_config :: config where
  "demo_config =
     \<lparr>splits = [(''train'', 80), (''val'', 20)], withholding = None, tracking = None,
      source_format = ''Sequence'', target_format = ''SEQUENCE'', transform_field = ''Source'',
      overwrite = True, batch_size = 2\<rparr>"

section \<open>Properties of the token decoder\<close>

lemma itos_lookup_valid:
  "valid_index itos i \<Longrightarrow>
     itos_lookup itos i = Inr (itos ! nat (if i < 0 then int (length itos) + i else i))"
  by (auto simp: itos_lookup_def valid_index_def Let_def)


lemma fill_row_valid:
  "list_all (valid_index itos) r \<Longrightarrow>
     fill_row itos sp r =
       Inr (map (\<lambda>s. if s \<notin> set specials \<or> sp then Some s else None) (decode_row itos r))"
  by (induction r) (simp_all add: decode_row_def itos_lookup_valid)

lemma fill_rows_valid:
  "list_all (list_all (valid_index itos)) idx \<Longrightarrow>
     fill_rows itos sp idx =
       Inr (map (\<lambda>r. map (\<lambda>s. if s \<notin> set specials \<or> sp then Some s else None)
                        (decode_row itos r)) idx)"
  by (induction idx) (simp_all add: fill_row_valid)

lemma compact_row_shown: "compact_row (map (\<lambda>s. Some s) ts) = ts"
  by (induction ts) (simp_all add: compact_row_def)

lemma compact_row_hidden:
  "compact_row (map (\<lambda>s. if s \<notin> set specials then Some s else None) ts) = without_specials ts"
  by (induction ts) (auto simp: compact_row_def without_specials_def specials_def)




text \<open>
  C3. For an index tensor whose entries are indices of the chosen vocabulary,
  \<^verbatim>\<open>id_to_token\<close> with \<^verbatim>\<open>show_special=False\<close> returns, row by row and in row order, the
  decoded tokens of the row with every \<^verbatim>\<open><sos>\<close>, \<^verbatim>\<open><eos>\<close> and \<^verbatim>\<open><pad>\<close> removed, the
  other tokens in their order and with no gap; with \<^verbatim>\<open>show_special=True\<close> it returns every
  decoded token.
\<close>

theorem id_to_token_removes_specials:
  assumes "vocab = (if vocab_str = ''source'' then source_vocab self else target_vocab self)"
    and "list_all (list_all (valid_index vocab)) idx_tensor"
  shows "id_to_token self idx_tensor vocab_str False =
           Inr (map (\<lambda>r. without_specials (decode_row vocab r)) idx_tensor)
         \<and> id_to_token self idx_tensor vocab_str True =
           Inr (map (decode_row vocab) idx_tensor)"
proof -
  have hidden: "fill_rows vocab False idx_tensor =
      Inr (map (\<lambda>r. map (\<lambda>s. if s \<notin> set specials then Some s else None) (decode_row vocab r))
             idx_tensor)"
    using fill_rows_valid [OF assms(2), of False] by simp
  have shown: "fill_rows vocab True idx_tensor =
      Inr (map (\<lambda>r. map (\<lambda>s. Some s) (decode_row vocab r)) idx_tensor)"
    using fill_rows_valid [OF assms(2), of True] by simp
  have "id_to_token self idx_tensor vocab_str False =
      Inr (map (\<lambda>r. without_specials (decode_row vocab r)) idx_tensor)"
    using hidden assms(1) by (simp add: id_to_token_def compact_row_hidden comp_def)
  moreover have "id_to_token self idx_tensor vocab_str True =
      Inr (map (decode_row vocab) idx_tensor)"
    using shown assms(1) by (simp add: id_to_token_def compact_row_shown comp_def)
  ultimately show ?thesis by simp
qed

theorem id_to_token_removes_specials_witness:
  "id_to_token demo_vocabs [[2, 4, 5, 3, 1], [2, 5, 0, 3, -5]] ''source'' False =
     Inr [[''a'', ''b''], [''b'', ''<unk>'']]
   \<and> id_to_token demo_vocabs [[2, 4, 5, 3, 1], [2, 5, 0, 3, -5]] ''source'' True =
     Inr [[''<sos>'', ''a'', ''b'', ''<eos>'', ''<pad>''],
          [''<sos>'', ''b'', ''<unk>'', ''<eos>'', ''<pad>'']]"
proof -
  have v: "source_vocab demo_vocabs =
      (if ''source'' = ''source'' then source_vocab demo_vocabs else target_vocab demo_vocabs)"
    by simp
  have ok: "list_all (list_all (valid_index (source_vocab demo_vocabs)))
      [[2, 4, 5, 3, 1], [2, 5, 0, 3, -5]]"
    by (simp add: valid_index_def demo_vocabs_def)
  show ?thesis
    using id_to_token_removes_specials [OF v ok]
    by (simp add: decode_row_def without_specials_def demo_vocabs_def)
qed



section \<open>Errors of the iterator constructor\<close>

lemma same_ignoring_case_lower: "same_ignoring_case a b \<longleftrightarrow> lower a = lower b"
  unfolding same_ignoring_case_def lower_def
  by (induction a arbitrary: b) (auto simp: list_all2_Cons1)

lemma lower_sequence: "lower ''sequence'' = ''sequence''"
  by (simp add: lower_def lower_char_def)

lemma TabularDataset_error: "TabularDataset mk lines sh = Inl e \<Longrightarrow> e = StopIteration"
  by (auto simp: TabularDataset_def split: if_splits list.splits)

lemma load_files_error: "load_files mk bs d st = Inl e \<Longrightarrow> e = StopIteration"
  by (induction mk bs d st rule: load_files.induct)
     (auto simp: Let_def split: if_splits sum.splits dest: TabularDataset_error)

text \<open>
  C5. \<^verbatim>\<open>_create_iterators\<close> raises \<^verbatim>\<open>NotImplementedError\<close> exactly when the source and target
  formats are not both \<^verbatim>\<open>sequence\<close> up to letter case; when they are, it raises a
  \<^verbatim>\<open>ValueError\<close>, and logs an error, exactly when the lowercased \<^verbatim>\<open>transform_field\<close> is
  neither \<^verbatim>\<open>source\<close> nor \<^verbatim>\<open>target\<close>.
\<close>

theorem create_iterators_errors:
  "(snd (create_iterators mk cfg d) = Inl NotImplementedError \<longleftrightarrow>
      \<not> (same_ignoring_case (source_format cfg) ''sequence''
         \<and> same_ignoring_case (target_format cfg) ''sequence''))
   \<and> (same_ignoring_case (source_format cfg) ''sequence''
        \<and> same_ignoring_case (target_format cfg) ''sequence'' \<longrightarrow>
      ((\<exists>m. snd (create_iterators mk cfg d) = Inl (ValueError m)) \<longleftrightarrow>
         lower (transform_field cfg) \<noteq> ''source'' \<and> lower (transform_field cfg) \<noteq> ''target'')
      \<and> (fst (create_iterators mk cfg d) \<noteq> [] \<longleftrightarrow>
         lower (transform_field cfg) \<noteq> ''source'' \<and> lower (transform_field cfg) \<noteq> ''target''))"
  by (auto simp: create_iterators_def same_ignoring_case_lower lower_sequence Let_def
           dest: load_files_error)



theorem create_iterators_errors_witness:
  "same_ignoring_case ''Sequence'' ''sequence'' \<and> same_ignoring_case ''SEQUENCE'' ''sequence''
   \<and> snd (create_iterators (\<lambda>l. l) (demo_config\<lparr>transform_field := ''Both''\<rparr>) []) =
       Inl (ValueError ''Invalid `transform_field`: both'')
   \<and> fst (create_iterators (\<lambda>l. l) (demo_config\<lparr>transform_field := ''Both''\<rparr>) []) =
       [''`transform_field` must be either 'source' or 'target'; you supplied both!'']
   \<and> snd (create_iterators (\<lambda>l. l) (demo_config\<lparr>target_format := ''tree''\<rparr>) []) =
       Inl NotImplementedError"
proof -
  have l1: "lower ''Sequence'' = ''sequence''" by (simp add: lower_def lower_char_def)
  have l2: "lower ''SEQUENCE'' = ''sequence''" by (simp add: lower_def lower_char_def)
  have l3: "lower ''Both'' = ''both''" by (simp add: lower_def lower_char_def)
  have l4: "lower ''tree'' = ''tree''" by (simp add: lower_def lower_char_def)
  show ?thesis
    using create_iterators_errors [of "\<lambda>l. l" "demo_config\<lparr>transform_field := ''Both''\<rparr>" "[]"]
      create_iterators_errors [of "\<lambda>l. l" "demo_config\<lparr>target_format := ''tree''\<rparr>" "[]"]
    by (simp add: create_iterators_def demo_config_def same_ignoring_case_lower l1 l2 l3 l4
        lower_sequence)
qed

section \<open>The directory operations\<close>

lemma isfile_map_of: "isfile d p \<longleftrightarrow> map_of d p \<noteq> None"
  by (simp add: isfile_def map_of_eq_None_iff)

lemma map_of_os_remove: "map_of (os_remove d p) q = (if q = p then None else map_of d q)"
  by (induction d) (auto simp: os_remove_def)

lemma map_of_remove_if_file:
  "map_of (remove_if_file d p) q = (if q = p then None else map_of d q)"
  by (auto simp: remove_if_file_def map_of_os_remove isfile_map_of)

lemma map_of_remove_all:
  "map_of (fold (\<lambda>p acc. remove_if_file acc p) ps d) q =
     (if q \<in> set ps then None else map_of d q)"
  by (induction ps arbitrary: d) (auto simp: map_of_remove_if_file)

lemma map_of_append_existing:
  "map_of (map (\<lambda>e. if fst e = p then (fst e, snd e @ [l]) else e) d) q =
     (if q = p then map_option (\<lambda>v. v @ [l]) (map_of d p) else map_of d q)"
  by (induction d) auto

lemma map_of_append_line:
  assumes "append_line d p l = Inr d1"
  shows "map_of d1 q = (if q = p then Some (content d p @ [l]) else map_of d q)"
proof (cases "isfile d p")
  case True
  then obtain v where "map_of d p = Some v"
    by (auto simp: isfile_map_of)
  with True assms show ?thesis
    by (auto simp: append_line_def map_of_append_existing content_def split: if_splits)
next
  case False
  then have "map_of d p = None"
    by (simp add: isfile_map_of)
  with False assms show ?thesis
    by (auto simp: append_line_def content_def map_add_def split: if_splits option.splits)
qed

lemma content_append_line:
  "append_line d p l = Inr d1 \<Longrightarrow>
     content d1 q = (if q = p then content d p @ [l] else content d q)"
  by (simp add: content_def [of d1] map_of_append_line) (simp add: content_def)

lemma append_line_any_dir:
  "append_line d0 p l = Inr d0' \<Longrightarrow> \<exists>d'. append_line d p l = Inr d'"
  by (auto simp: append_line_def split: if_splits)

section \<open>Routing of the data lines\<close>

lemma assigned_Cons:
  "assigned (l # ls) (p # dest) q = (if p = q then [l] else []) @ assigned ls dest q"
  by (simp add: assigned_def)

lemma assigned_Nil: "assigned [] dest q = []"
  by (simp add: assigned_def)

lemma route_lines_spec:
  assumes "route_lines ch rs wh paths probs ls d0 g = Inr (d0', g')"
  shows "\<exists>dest. spec_destinations ch (is_withheld rs wh) paths probs ls g = Inr (dest, g')
           \<and> (\<forall>d. \<exists>d'. route_lines ch rs wh paths probs ls d g = Inr (d', g')
                 \<and> (\<forall>q. map_of d' q =
                       (if assigned ls dest q = [] then map_of d q
                        else Some (content d q @ assigned ls dest q))))"
  using assms
proof (induction ls arbitrary: d0 g)
  case Nil
  then show ?case by (simp add: assigned_Nil)
next
  case (Cons l ls)
  have step: "\<exists>dest. spec_destinations ch (is_withheld rs wh) paths probs ls g1 = Inr (dest, g')
           \<and> (\<forall>d. \<exists>d1 d'. append_line d p l = Inr d1
                 \<and> route_lines ch rs wh paths probs ls d1 g1 = Inr (d', g')
                 \<and> (\<forall>q. map_of d' q =
                       (if assigned (l # ls) (p # dest) q = [] then map_of d q
                        else Some (content d q @ assigned (l # ls) (p # dest) q))))"
    if a0: "append_line d0 p l = Inr d01"
      and r: "route_lines ch rs wh paths probs ls d01 g1 = Inr (d0', g')" for p g1 d01
  proof -
    from Cons.IH [OF r] obtain dest where
      s: "spec_destinations ch (is_withheld rs wh) paths probs ls g1 = Inr (dest, g')"
      and b: "\<forall>d. \<exists>d'. route_lines ch rs wh paths probs ls d g1 = Inr (d', g')
                 \<and> (\<forall>q. map_of d' q =
                       (if assigned ls dest q = [] then map_of d q
                        else Some (content d q @ assigned ls dest q)))"
      by blast
    have "\<exists>d1 d'. append_line d p l = Inr d1
                 \<and> route_lines ch rs wh paths probs ls d1 g1 = Inr (d', g')
                 \<and> (\<forall>q. map_of d' q =
                       (if assigned (l # ls) (p # dest) q = [] then map_of d q
                        else Some (content d q @ assigned (l # ls) (p # dest) q)))" for d
    proof -
      from append_line_any_dir [OF a0] obtain d1 where a: "append_line d p l = Inr d1"
        by blast
      from b obtain d' where
        "route_lines ch rs wh paths probs ls d1 g1 = Inr (d', g')"
        and "\<forall>q. map_of d' q =
               (if assigned ls dest q = [] then map_of d1 q
                else Some (content d1 q @ assigned ls dest q))"
        by blast
      with a show ?thesis
        by (simp add: assigned_Cons map_of_append_line [OF a] content_append_line [OF a])
    qed
    with s show ?thesis by blast
  qed
  show ?case
  proof (cases "is_withheld rs wh l")
    case True
    with Cons.prems obtain d01 where
      "append_line d0 g_path l = Inr d01"
      "route_lines ch rs wh paths probs ls d01 g = Inr (d0', g')"
      by (auto split: sum.splits)
    from step [OF this] obtain dest where
      s: "spec_destinations ch (is_withheld rs wh) paths probs ls g = Inr (dest, g')"
      and b: "\<forall>d. \<exists>d1 d'. append_line d g_path l = Inr d1
                 \<and> route_lines ch rs wh paths probs ls d1 g = Inr (d', g')
                 \<and> (\<forall>q. map_of d' q =
                       (if assigned (l # ls) (g_path # dest) q = [] then map_of d q
                        else Some (content d q @ assigned (l # ls) (g_path # dest) q)))"
      by blast
    have "spec_destinations ch (is_withheld rs wh) paths probs (l # ls) g =
        Inr (g_path # dest, g')"
      using True s by (simp add: g_path_def)
    moreover have "\<forall>d. \<exists>d'. route_lines ch rs wh paths probs (l # ls) d g = Inr (d', g')
                 \<and> (\<forall>q. map_of d' q =
                       (if assigned (l # ls) (g_path # dest) q = [] then map_of d q
                        else Some (content d q @ assigned (l # ls) (g_path # dest) q)))"
    proof
      fix d
      from b obtain d1 d' where "append_line d g_path l = Inr d1"
        "route_lines ch rs wh paths probs ls d1 g = Inr (d', g')"
        "\<forall>q. map_of d' q =
               (if assigned (l # ls) (g_path # dest) q = [] then map_of d q
                else Some (content d q @ assigned (l # ls) (g_path # dest) q))"
        by blast
      with True show "\<exists>d'. route_lines ch rs wh paths probs (l # ls) d g = Inr (d', g')
                 \<and> (\<forall>q. map_of d' q =
                       (if assigned (l # ls) (g_path # dest) q = [] then map_of d q
                        else Some (content d q @ assigned (l # ls) (g_path # dest) q)))"
        by simp
    qed
    ultimately show ?thesis by blast
  next
    case False
    with Cons.prems obtain split g1 d01 where
      c: "ch g paths probs = Inr (split, g1)"
      and a0: "append_line d0 split l = Inr d01"
      and r: "route_lines ch rs wh paths probs ls d01 g1 = Inr (d0', g')"
      by (auto split: sum.splits)
    from step [OF a0 r] obtain dest where
      s: "spec_destinations ch (is_withheld rs wh) paths probs ls g1 = Inr (dest, g')"
      and b: "\<forall>d. \<exists>d1 d'. append_line d split l = Inr d1
                 \<and> route_lines ch rs wh paths probs ls d1 g1 = Inr (d', g')
                 \<and> (\<forall>q. map_of d' q =
                       (if assigned (l # ls) (split # dest) q = [] then map_of d q
                        else Some (content d q @ assigned (l # ls) (split # dest) q)))"
      by blast
    have "spec_destinations ch (is_withheld rs wh) paths probs (l # ls) g =
        Inr (split # dest, g')"
      using False s c by simp
    moreover have "\<forall>d. \<exists>d'. route_lines ch rs wh paths probs (l # ls) d g = Inr (d', g')
                 \<and> (\<forall>q. map_of d' q =
                       (if assigned (l # ls) (split # dest) q = [] then map_of d q
                        else Some (content d q @ assigned (l # ls) (split # dest) q)))"
    proof
      fix d
      from b obtain d1 d' where "append_line d split l = Inr d1"
        "route_lines ch rs wh paths probs ls d1 g1 = Inr (d', g')"
        "\<forall>q. map_of d' q =
               (if assigned (l # ls) (split # dest) q = [] then map_of d q
                else Some (content d q @ assigned (l # ls) (split # dest) q))"
        by blast
      with False c show "\<exists>d'. route_lines ch rs wh paths probs (l # ls) d g = Inr (d', g')
                 \<and> (\<forall>q. map_of d' q =
                       (if assigned (l # ls) (split # dest) q = [] then map_of d q
                        else Some (content d q @ assigned (l # ls) (split # dest) q)))"
        by simp
    qed
    ultimately show ?thesis by blast
  qed
qed


lemma spec_destinations_candidates:
  assumes "draws_from_candidates ch"
  shows "spec_destinations ch W paths probs ls g = Inr (dest, g') \<Longrightarrow>
     list_all2 (\<lambda>l p. if W l then p = ''gen.pt'' else p \<in> set paths) ls dest"
proof (induction ls arbitrary: g dest)
  case Nil
  then show ?case by simp
next
  case (Cons l ls)
  show ?case
  proof (cases "W l")
    case True
    with Cons.prems obtain rest where
      r: "spec_destinations ch W paths probs ls g = Inr (rest, g')"
      and d: "dest = ''gen.pt'' # rest"
      by (auto split: sum.splits)
    with Cons.IH [OF r] True show ?thesis by simp
  next
    case False
    with Cons.prems obtain p g1 rest where c: "ch g paths probs = Inr (p, g1)"
      and r: "spec_destinations ch W paths probs ls g1 = Inr (rest, g')"
      and d: "dest = p # rest"
      by (auto split: sum.splits)
    from c assms have "p \<in> set paths"
      unfolding draws_from_candidates_def by blast
    with Cons.IH [OF r] False d show ?thesis by simp
  qed
qed

lemma assigned_partition_mset:
  "finite F \<Longrightarrow> length dest = length ls \<Longrightarrow> set dest \<subseteq> F \<Longrightarrow>
     (\<Sum>q\<in>F. mset (assigned ls dest q)) = mset ls"
proof (induction ls arbitrary: dest)
  case Nil
  then show ?case by (simp add: assigned_Nil)
next
  case (Cons l ls)
  then obtain p dest' where d: "dest = p # dest'" "length dest' = length ls" "set dest' \<subseteq> F" "p \<in> F"
    by (cases dest) auto
  have "(\<Sum>q\<in>F. mset (assigned (l # ls) dest q)) =
        (\<Sum>q\<in>F. (if p = q then {#l#} else {#}) + mset (assigned ls dest' q))"
    by (rule sum.cong) (auto simp: d assigned_Cons)
  also have "\<dots> = (\<Sum>q\<in>F. (if p = q then {#l#} else {#})) + (\<Sum>q\<in>F. mset (assigned ls dest' q))"
    by (simp add: sum.distrib)
  also have "(\<Sum>q\<in>F. (if p = q then {#l#} else {#})) = {#l#}"
    using Cons.prems(1) d(4) by (simp add: sum.delta')
  also have "(\<Sum>q\<in>F. mset (assigned ls dest' q)) = mset ls"
    using Cons.IH [OF Cons.prems(1) d(2) d(3)] .
  finally show ?case by simp
qed

lemma assigned_partition_length:
  "finite F \<Longrightarrow> length dest = length ls \<Longrightarrow> set dest \<subseteq> F \<Longrightarrow>
     (\<Sum>q\<in>F. length (assigned ls dest q)) = length ls"
proof -
  assume a: "finite F" "length dest = length ls" "set dest \<subseteq> F"
  have "(\<Sum>q\<in>F. length (assigned ls dest q)) = (\<Sum>q\<in>F. size (mset (assigned ls dest q)))"
    by simp
  also have "\<dots> = size (\<Sum>q\<in>F. mset (assigned ls dest q))"
    by (simp add: size_multiset_sum)
  finally show ?thesis
    using assigned_partition_mset [OF a] by simp
qed

lemma assigned_subset: "set (assigned ls dest q) \<subseteq> set ls"
  by (auto simp: assigned_def dest: set_zip_leftD)

lemma assigned_disjoint:
  assumes "distinct ls" "q1 \<noteq> q2"
  shows "set (assigned ls dest q1) \<inter> set (assigned ls dest q2) = {}"
proof -
  have dz: "distinct (map fst (zip ls dest))"
    using assms(1) by (simp add: map_fst_zip_take)
  { fix l assume "l \<in> set (assigned ls dest q1)" "l \<in> set (assigned ls dest q2)"
    then have "(l, q1) \<in> set (zip ls dest)" "(l, q2) \<in> set (zip ls dest)"
      by (auto simp: assigned_def)
    with dz have "q1 = q2" by (rule eq_key_imp_eq_value)
    with assms(2) have False by simp }
  then show ?thesis by blast
qed

section \<open>The regular split generator\<close>

lemma prepare_withholding_Inr:
  assumes "prepare_withholding rc cfg d = Inr (wh, d1)"
  shows "wh = compiled_withholding rc cfg"
    and "(wh = None) = (withholding cfg = None)"
    and "map_of d1 q = (if q = g_path \<and> withholding cfg \<noteq> None then None else map_of d q)"
proof -
  have "wh = compiled_withholding rc cfg \<and> (wh = None) = (withholding cfg = None)
        \<and> map_of d1 q = (if q = g_path \<and> withholding cfg \<noteq> None then None else map_of d q)"
  proof (cases "withholding cfg")
    case None
    with assms show ?thesis
      by (auto simp: prepare_withholding_def compiled_withholding_def)
  next
    case w: (Some pats)
    show ?thesis
    proof (cases "rc (join ''|'' pats)")
      case None
      with assms w show ?thesis
        by (simp add: prepare_withholding_def)
    next
      case (Some rx)
      with assms w have "wh = Some rx" "d1 = remove_if_file d g_path"
        by (simp_all add: prepare_withholding_def)
      with w Some show ?thesis
        by (simp add: compiled_withholding_def map_of_remove_if_file)
    qed
  qed
  then show "wh = compiled_withholding rc cfg"
    and "(wh = None) = (withholding cfg = None)"
    and "map_of d1 q = (if q = g_path \<and> withholding cfg \<noteq> None then None else map_of d q)"
    by blast+
qed

lemma prepare_withholding_any_dir:
  assumes "prepare_withholding rc cfg d0 = Inr (wh, d01)"
  shows "\<exists>d1. prepare_withholding rc cfg d = Inr (wh, d1)"
proof (cases "withholding cfg")
  case None
  with assms show ?thesis by (simp add: prepare_withholding_def)
next
  case w: (Some pats)
  show ?thesis
  proof (cases "rc (join ''|'' pats)")
    case None
    with assms w show ?thesis by (simp add: prepare_withholding_def)
  next
    case (Some rx)
    with assms w have "wh = Some rx" by (simp add: prepare_withholding_def)
    with w Some show ?thesis by (simp add: prepare_withholding_def)
  qed
qed

lemma content_regular:
  assumes "\<forall>q. map_of d' q =
                 (if q \<in> F
                  then (if assigned ls dest q = [] then None else Some (assigned ls dest q))
                  else map_of d q)"
    and "q \<in> F"
  shows "content d' q = assigned ls dest q"
  using assms by (simp add: content_def)

lemma finite_regular_files: "finite (regular_files cfg)"
  by (simp add: regular_files_def split: option.splits)

lemma create_regular_splits_spec:
  assumes "create_regular_splits rc rs ch cfg raw d0 g = Inr (d0', g')"
  shows "\<exists>header ls dest. raw = Some (header # ls)
           \<and> spec_destinations ch (is_withheld rs (compiled_withholding rc cfg))
                (s_paths cfg) (s_probs cfg) ls g = Inr (dest, g')
           \<and> (\<forall>d. \<exists>d'. create_regular_splits rc rs ch cfg raw d g = Inr (d', g')
                 \<and> (\<forall>q. map_of d' q =
                       (if q \<in> regular_files cfg
                        then (if assigned ls dest q = [] then None
                              else Some (assigned ls dest q))
                        else if assigned ls dest q = [] then map_of d q
                        else Some (content d q @ assigned ls dest q))))"
proof -
  from assms obtain wh d01 where pw0: "prepare_withholding rc cfg d0 = Inr (wh, d01)"
    by (auto simp: create_regular_splits_def split: sum.splits)
  define d02 where "d02 = fold (\<lambda>split acc. remove_if_file acc split) (s_paths cfg) d01"
  from assms pw0 obtain header ls where raw: "raw = Some (header # ls)"
    and run0: "route_lines ch rs wh (s_paths cfg) (s_probs cfg) ls d02 g = Inr (d0', g')"
    by (auto simp: create_regular_splits_def d02_def split: option.splits list.splits)
  have wh: "wh = compiled_withholding rc cfg"
    using prepare_withholding_Inr(1) [OF pw0] .
  from route_lines_spec [OF run0] obtain dest where
    s: "spec_destinations ch (is_withheld rs wh) (s_paths cfg) (s_probs cfg) ls g = Inr (dest, g')"
    and b: "\<forall>d. \<exists>d'. route_lines ch rs wh (s_paths cfg) (s_probs cfg) ls d g = Inr (d', g')
                 \<and> (\<forall>q. map_of d' q =
                       (if assigned ls dest q = [] then map_of d q
                        else Some (content d q @ assigned ls dest q)))"
    by blast
  have "\<exists>d'. create_regular_splits rc rs ch cfg raw d g = Inr (d', g')
           \<and> (\<forall>q. map_of d' q =
                 (if q \<in> regular_files cfg
                  then (if assigned ls dest q = [] then None else Some (assigned ls dest q))
                  else if assigned ls dest q = [] then map_of d q
                  else Some (content d q @ assigned ls dest q)))" for d
  proof -
    from prepare_withholding_any_dir [OF pw0] obtain d1 where
      pw: "prepare_withholding rc cfg d = Inr (wh, d1)" by blast
    define d2 where "d2 = fold (\<lambda>split acc. remove_if_file acc split) (s_paths cfg) d1"
    have d2: "map_of d2 q = (if q \<in> regular_files cfg then None else map_of d q)" for q
      by (auto simp: d2_def map_of_remove_all prepare_withholding_Inr(3) [OF pw]
          regular_files_def split: option.splits)
    from b obtain d' where
      r: "route_lines ch rs wh (s_paths cfg) (s_probs cfg) ls d2 g = Inr (d', g')"
      and m: "\<forall>q. map_of d' q =
               (if assigned ls dest q = [] then map_of d2 q
                else Some (content d2 q @ assigned ls dest q))"
      by blast
    have "create_regular_splits rc rs ch cfg raw d g = Inr (d', g')"
      using pw r by (simp add: create_regular_splits_def raw d2_def)
    moreover have "\<forall>q. map_of d' q =
                 (if q \<in> regular_files cfg
                  then (if assigned ls dest q = [] then None else Some (assigned ls dest q))
                  else if assigned ls dest q = [] then map_of d q
                  else Some (content d q @ assigned ls dest q))"
      using m by (auto simp: d2 content_def)
    ultimately show ?thesis by blast
  qed
  with raw s wh show ?thesis by blast
qed

lemma spec_destinations_regular:
  assumes "spec_destinations ch (is_withheld rs (compiled_withholding rc cfg))
             (s_paths cfg) (s_probs cfg) ls g = Inr (dest, g')"
    and "draws_from_candidates ch"
  shows "list_all2 (\<lambda>l p. if is_withheld rs (compiled_withholding rc cfg) l
                          then p = g_path else p \<in> set (s_paths cfg)) ls dest"
    and "set dest \<subseteq> regular_files cfg"
proof -
  let ?W = "is_withheld rs (compiled_withholding rc cfg)"
  show a: "list_all2 (\<lambda>l p. if ?W l then p = g_path else p \<in> set (s_paths cfg)) ls dest"
    unfolding g_path_def by (rule spec_destinations_candidates [OF assms(2) assms(1)])
  show "set dest \<subseteq> regular_files cfg"
  proof
    fix p assume "p \<in> set dest"
    then obtain i where i: "i < length dest" "dest ! i = p"
      by (auto simp: in_set_conv_nth)
    with a have c: "if ?W (ls ! i) then p = g_path else p \<in> set (s_paths cfg)"
      by (auto simp: list_all2_conv_all_nth)
    show "p \<in> regular_files cfg"
    proof (cases "?W (ls ! i)")
      case True
      then have "withholding cfg \<noteq> None"
        by (cases "withholding cfg") (auto simp: is_withheld_def compiled_withholding_def)
      with True c show ?thesis by (auto simp: regular_files_def)
    next
      case False
      with c show ?thesis by (simp add: regular_files_def)
    qed
  qed
qed

lemma assigned_outside:
  assumes "set dest \<subseteq> F" "q \<notin> F"
  shows "assigned ls dest q = []"
  using assms set_zip_rightD [of _ q ls dest]
  by (fastforce simp: assigned_def filter_empty_conv)

lemma create_regular_splits_dest:
  assumes "create_regular_splits rc rs ch cfg raw d g = Inr (d', g')"
    and "draws_from_candidates ch"
  shows "\<exists>header ls dest. raw = Some (header # ls)
           \<and> list_all2 (\<lambda>l p. if is_withheld rs (compiled_withholding rc cfg) l
                               then p = g_path else p \<in> set (s_paths cfg)) ls dest
           \<and> set dest \<subseteq> regular_files cfg
           \<and> (\<forall>q. map_of d' q =
                 (if q \<in> regular_files cfg
                  then (if assigned ls dest q = [] then None else Some (assigned ls dest q))
                  else map_of d q))"
proof -
  from create_regular_splits_spec [OF assms(1)] obtain header ls dest where
    raw: "raw = Some (header # ls)"
    and s: "spec_destinations ch (is_withheld rs (compiled_withholding rc cfg))
                (s_paths cfg) (s_probs cfg) ls g = Inr (dest, g')"
    and b: "\<forall>d. \<exists>d'. create_regular_splits rc rs ch cfg raw d g = Inr (d', g')
                 \<and> (\<forall>q. map_of d' q =
                       (if q \<in> regular_files cfg
                        then (if assigned ls dest q = [] then None
                              else Some (assigned ls dest q))
                        else if assigned ls dest q = [] then map_of d q
                        else Some (content d q @ assigned ls dest q)))"
    by blast
  note r = spec_destinations_regular [OF s assms(2)]
  from b assms(1) have m: "\<forall>q. map_of d' q =
                       (if q \<in> regular_files cfg
                        then (if assigned ls dest q = [] then None
                              else Some (assigned ls dest q))
                        else if assigned ls dest q = [] then map_of d q
                        else Some (content d q @ assigned ls dest q))"
    by (metis Inr_inject prod.inject)
  have "\<forall>q. map_of d' q =
                 (if q \<in> regular_files cfg
                  then (if assigned ls dest q = [] then None else Some (assigned ls dest q))
                  else map_of d q)"
    using m assigned_outside [OF r(2)] by auto
  with raw r show ?thesis by blast
qed


section \<open>Properties of the regular split generator\<close>

lemma draws_from_candidates_rr_choice: "draws_from_candidates rr_choice"
  by (auto simp: draws_from_candidates_def rr_choice_def split: if_splits)


text \<open>
  C1 (as amended). When the sampler returns one of its candidates, a run of the regular-split
  generator that completes has written every data line (every line after the header) to
  exactly one of the files of the configured splits, the gen file counting among them when
  withholding patterns are configured: the line counts of these files sum to the number of
  data lines, the files together hold exactly the data lines with their multiplicities, and
  when no two data lines are equal the files are pairwise disjoint in line content.
\<close>

theorem regular_splits_partition:
  assumes "draws_from_candidates ch"
    and "create_regular_splits rc rs ch cfg (Some (header # ls)) d g = Inr (d', g')"
  shows "(\<Sum>q\<in>regular_files cfg. length (content d' q)) = length ls
       \<and> (\<Sum>q\<in>regular_files cfg. mset (content d' q)) = mset ls
       \<and> (distinct ls \<longrightarrow>
            (\<forall>q1\<in>regular_files cfg. \<forall>q2\<in>regular_files cfg.
               q1 \<noteq> q2 \<longrightarrow> set (content d' q1) \<inter> set (content d' q2) = {}))"
proof (intro conjI impI)
  from create_regular_splits_dest [OF assms(2,1)] obtain dest where
    a: "list_all2 (\<lambda>l p. if is_withheld rs (compiled_withholding rc cfg) l
                          then p = g_path else p \<in> set (s_paths cfg)) ls dest"
    and sub: "set dest \<subseteq> regular_files cfg"
    and m: "\<forall>q. map_of d' q =
                 (if q \<in> regular_files cfg
                  then (if assigned ls dest q = [] then None else Some (assigned ls dest q))
                  else map_of d q)"
    by auto
  have len: "length dest = length ls"
    using a by (simp add: list_all2_lengthD)
  have c: "content d' q = assigned ls dest q" if "q \<in> regular_files cfg" for q
    using content_regular [OF m that] .
  show "(\<Sum>q\<in>regular_files cfg. length (content d' q)) = length ls"
    using assigned_partition_length [OF finite_regular_files len sub] by (simp add: c)
  show "(\<Sum>q\<in>regular_files cfg. mset (content d' q)) = mset ls"
    using assigned_partition_mset [OF finite_regular_files len sub] by (simp add: c)
  show "\<forall>q1\<in>regular_files cfg. \<forall>q2\<in>regular_files cfg.
          q1 \<noteq> q2 \<longrightarrow> set (content d' q1) \<inter> set (content d' q2) = {}"
    if dl: "distinct ls"
    using assigned_disjoint [OF dl] by (simp add: c)
qed

theorem regular_splits_partition_witness:
  "draws_from_candidates rr_choice
   \<and> create_regular_splits lit_compile lit_search rr_choice demo_withholding_config
       (Some [''source annotation target'', ''w1 x y'', ''a x b'', ''b x c'', ''w2 x z''])
       [(''train.pt'', [''old line''])] 0 =
     Inr ([(''gen.pt'', [''w1 x y'', ''w2 x z'']), (''train.pt'', [''a x b'']),
           (''val.pt'', [''b x c''])], 2)
   \<and> (\<Sum>q\<in>regular_files demo_withholding_config.
         length (content [(''gen.pt'', [''w1 x y'', ''w2 x z'']), (''train.pt'', [''a x b'']),
           (''val.pt'', [''b x c''])] q)) = 4"
proof -
  have run: "create_regular_splits lit_compile lit_search rr_choice demo_withholding_config
       (Some [''source annotation target'', ''w1 x y'', ''a x b'', ''b x c'', ''w2 x z''])
       [(''train.pt'', [''old line''])] 0 =
     Inr ([(''gen.pt'', [''w1 x y'', ''w2 x z'']), (''train.pt'', [''a x b'']),
           (''val.pt'', [''b x c''])], 2)"
    by (simp add: create_regular_splits_def prepare_withholding_def demo_withholding_config_def
        lit_compile_def lit_search_def rr_choice_def join_def s_paths_def s_probs_def
        split_path_def g_path_def remove_if_file_def os_remove_def isfile_def append_line_def
        is_withheld_def)
  show ?thesis
    using regular_splits_partition [OF draws_from_candidates_rr_choice run]
      run draws_from_candidates_rr_choice
    by simp
qed

theorem regular_splits_disjoint_counterexample:
  "create_regular_splits lit_compile lit_search rr_choice demo_config
       (Some [''source annotation target'', ''a x b'', ''a x b'']) [] 0 =
     Inr ([(''train.pt'', [''a x b'']), (''val.pt'', [''a x b''])], 2)
   \<and> set (content [(''train.pt'', [''a x b'']), (''val.pt'', [''a x b''])] ''train.pt'')
       \<inter> set (content [(''train.pt'', [''a x b'']), (''val.pt'', [''a x b''])] ''val.pt'') \<noteq> {}"
  by (simp add: create_regular_splits_def prepare_withholding_def demo_config_def
      rr_choice_def s_paths_def s_probs_def split_path_def remove_if_file_def os_remove_def
      isfile_def append_line_def is_withheld_def content_def)

section \<open>The routing of a line\<close>













section \<open>The weights of the splits\<close>

lemma route_lines_same_draws:
  assumes "\<forall>g. ch g paths probs' = ch g paths probs"
  shows "route_lines ch rs wh paths probs' ls d g = route_lines ch rs wh paths probs ls d g"
  using assms by (induction ls arbitrary: d g) (simp_all split: sum.splits)

text \<open>
  C8. The split generator does not validate the weights: it hands them, divided by 100, to the
  sampler and does nothing else with them. Two configurations with the same split names on
  which the sampler draws alike, whatever their weights sum to and whatever their signs, give
  the same run; and on a corpus with a header only, where nothing is drawn, the run succeeds
  for every choice of weights.
\<close>

theorem weights_not_validated:
  assumes "map fst (splits cfg') = map fst (splits cfg)"
    and "withholding cfg' = withholding cfg"
    and "\<forall>g. ch g (s_paths cfg) (s_probs cfg') = ch g (s_paths cfg) (s_probs cfg)"
  shows "create_regular_splits rc rs ch cfg' raw d g = create_regular_splits rc rs ch cfg raw d g
       \<and> (withholding cfg = None \<longrightarrow>
            create_regular_splits rc rs ch cfg (Some [header]) d g =
              Inr (fold (\<lambda>split acc. remove_if_file acc split) (s_paths cfg) d, g))"
proof -
  have p: "s_paths cfg' = s_paths cfg"
    using assms(1) by (simp add: s_paths_def)
  have w: "prepare_withholding rc cfg' d = prepare_withholding rc cfg d"
    using assms(2) by (simp add: prepare_withholding_def)
  have r: "route_lines ch rs wh (s_paths cfg) (s_probs cfg') ls d2 g =
           route_lines ch rs wh (s_paths cfg) (s_probs cfg) ls d2 g" for wh ls d2
    using route_lines_same_draws [where ch = ch and paths = "s_paths cfg"
        and probs' = "s_probs cfg'" and probs = "s_probs cfg", OF assms(3)] .
  have "create_regular_splits rc rs ch cfg' raw d g = create_regular_splits rc rs ch cfg raw d g"
    unfolding create_regular_splits_def p w r ..
  moreover have "create_regular_splits rc rs ch cfg (Some [header]) d g =
      Inr (fold (\<lambda>split acc. remove_if_file acc split) (s_paths cfg) d, g)"
    if "withholding cfg = None"
    using that by (simp add: create_regular_splits_def prepare_withholding_def)
  ultimately show ?thesis by blast
qed

theorem weights_not_validated_witness:
  "create_regular_splits lit_compile lit_search rr_choice
       (demo_config\<lparr>splits := [(''train'', 50), (''val'', - 10)]\<rparr>)
       (Some [''source annotation target'', ''a x b'', ''b x c'']) [] 0 =
     Inr ([(''train.pt'', [''a x b'']), (''val.pt'', [''b x c''])], 2)"
proof -
  have n: "map fst (splits (demo_config\<lparr>splits := [(''train'', 50), (''val'', - 10)]\<rparr>)) =
      map fst (splits demo_config)"
    by (simp add: demo_config_def)
  have w: "withholding (demo_config\<lparr>splits := [(''train'', 50), (''val'', - 10)]\<rparr>) =
      withholding demo_config"
    by simp
  have c: "\<forall>g. rr_choice g (s_paths demo_config)
               (s_probs (demo_config\<lparr>splits := [(''train'', 50), (''val'', - 10)]\<rparr>)) =
             rr_choice g (s_paths demo_config) (s_probs demo_config)"
    by (simp add: rr_choice_def)
  have run: "create_regular_splits lit_compile lit_search rr_choice demo_config
       (Some [''source annotation target'', ''a x b'', ''b x c'']) [] 0 =
     Inr ([(''train.pt'', [''a x b'']), (''val.pt'', [''b x c''])], 2)"
    by (simp add: create_regular_splits_def prepare_withholding_def demo_config_def
        rr_choice_def s_paths_def s_probs_def split_path_def remove_if_file_def os_remove_def
        isfile_def append_line_def is_withheld_def)
  show ?thesis
    using weights_not_validated [where cfg = demo_config and ch = rr_choice
        and cfg' = "demo_config\<lparr>splits := [(''train'', 50), (''val'', - 10)]\<rparr>"
        and rc = lit_compile and rs = lit_search and d = "[]" and g = 0
        and raw = "Some [''source annotation target'', ''a x b'', ''b x c'']", OF n w c] run
    by simp
qed

section \<open>The tracking split generator\<close>








section \<open>Properties of the tracking split generator\<close>




section \<open>Regeneration of the processed files\<close>



section \<open>Properties of re-initialization\<close>





section \<open>Properties of the datasets and vocabularies\<close>

lemma TabularDataset_skip:
  "TabularDataset mk lines True = Inr dataset \<Longrightarrow> lines \<noteq> [] \<and> dataset = map mk (tl lines)"
  by (auto simp: TabularDataset_def split: list.splits)








lemma lower_field_words:
  "lower ''target'' = ''target''" "lower ''source'' = ''source''"
  by (simp_all add: lower_def lower_char_def)





section \<open>The header skip of the tabular reader\<close>

lemma map_of_dict_set: "map_of (dict_set k v m) s = (if s = k then Some v else map_of m s)"
proof (cases "k \<in> set (map fst m)")
  case True
  have r: "map_of (map (\<lambda>e. if fst e = k then (k, v) else e) m) s =
      (if s = k then map_option (\<lambda>x. v) (map_of m k) else map_of m s)"
    by (induction m) auto
  from True obtain x where "map_of m k = Some x"
    by (cases "map_of m k") (auto simp: map_of_eq_None_iff)
  with True r show ?thesis
    by (simp add: dict_set_def)
next
  case False
  then have "map_of m k = None"
    by (simp add: map_of_eq_None_iff)
  with False show ?thesis
    by (cases "map_of m s") (auto simp: dict_set_def map_add_def)
qed

lemma map_of_unique:
  assumes "(k, v) \<in> set xs" "\<forall>v'. (k, v') \<in> set xs \<longrightarrow> v' = v"
  shows "map_of xs k = Some v"
proof (cases "map_of xs k")
  case None
  with assms(1) show ?thesis
    by (force simp: map_of_eq_None_iff)
next
  case (Some v')
  then have "(k, v') \<in> set xs" by (rule map_of_SomeD)
  with assms(2) Some show ?thesis by simp
qed

lemma load_files_iterators:
  "load_files mk bs d st = Inr st' \<Longrightarrow>
     (\<forall>s. map_of (iterators st') s =
        (case map_of (rev (map (\<lambda>e. (split_name (fst e),
                \<lparr>it_dataset = map mk (tl (snd e)), it_batch_size = bs\<rparr>))
              (filter (\<lambda>e. endswith (fst e) ''.pt'') d))) s of
           None \<Rightarrow> map_of (iterators st) s
         | Some it \<Rightarrow> Some it))
     \<and> (\<forall>e\<in>set d. endswith (fst e) ''.pt'' \<longrightarrow> snd e \<noteq> [])"
proof (induction d arbitrary: st)
  case Nil
  then show ?case by simp
next
  case (Cons e d)
  obtain fname lines where e: "e = (fname, lines)" by (cases e)
  show ?case
  proof (cases "endswith fname ''.pt''")
    case False
    with Cons e show ?thesis by simp
  next
    case True
    with Cons.prems e obtain dataset where ds: "TabularDataset mk lines True = Inr dataset"
      by (auto split: sum.splits)
    note sk = TabularDataset_skip [OF ds]
    let ?it = "\<lparr>it_dataset = dataset, it_batch_size = bs\<rparr>"
    let ?st1 = "st\<lparr>iterators := dict_set (split_name fname) ?it (iterators st)\<rparr>"
    let ?st2 = "if split_name fname \<in> set [''train'', ''test'', ''val'']
                then ?st1\<lparr>in_sample_data := in_sample_data ?st1 @ [dataset]\<rparr> else ?st1"
    from Cons.prems e True ds have r: "load_files mk bs d ?st2 = Inr st'"
      by (simp add: Let_def)
    have i2: "iterators ?st2 = dict_set (split_name fname) ?it (iterators st)"
      by simp
    from Cons.IH [OF r] True sk e show ?thesis
      by (auto simp: i2 map_of_dict_set map_add_def split: option.splits)
  qed
qed

lemma create_iterators_loads:
  assumes "snd (create_iterators mk cfg d) = Inr st"
  shows "\<exists>st0. iterators st0 = [] \<and> load_files mk (batch_size cfg) d st0 = Inr st"
proof -
  let ?s = "\<lparr>transform_fld = SourceField, iterators = [], in_sample_data = []\<rparr>"
  let ?t = "\<lparr>transform_fld = TargetField, iterators = [], in_sample_data = []\<rparr>"
  from assms have "load_files mk (batch_size cfg) d ?s = Inr st
      \<or> load_files mk (batch_size cfg) d ?t = Inr st"
    by (auto simp: create_iterators_def Let_def split: if_splits)
  then show ?thesis
  proof
    assume "load_files mk (batch_size cfg) d ?s = Inr st"
    then show ?thesis by (intro exI [of _ ?s]) simp
  next
    assume "load_files mk (batch_size cfg) d ?t = Inr st"
    then show ?thesis by (intro exI [of _ ?t]) simp
  qed
qed

text \<open>
  C9. Every processed file is read with the header row skipped, while the split generators
  write files with no header line. So for a processed file (the only one of its split name)
  left by the regular split generator, the dataset and the iterator of its split hold the
  lines of the file without the first; and when the file is one of the regular split files,
  its lines are the data lines routed to it, so the line left out is a data line.
\<close>

theorem header_skip_drops_first_data_line:
  assumes "create_regular_splits rc rs ch cfg (Some (header # ls)) d g = Inr (d', g')"
    and "draws_from_candidates ch"
    and "snd (create_iterators mk cfg d') = Inr st"
    and "(fname, lines) \<in> set d'"
    and "endswith fname ''.pt''"
    and "\<forall>e\<in>set d'. endswith (fst e) ''.pt'' \<and> split_name (fst e) = split_name fname \<longrightarrow>
           e = (fname, lines)"
  shows "\<exists>l rest. lines = l # rest
           \<and> map_of (iterators st) (split_name fname) =
               Some \<lparr>it_dataset = map mk rest, it_batch_size = batch_size cfg\<rparr>
           \<and> (fname \<in> regular_files cfg \<longrightarrow>
                (\<exists>dest. length dest = length ls \<and> lines = assigned ls dest fname))"
proof -
  let ?bs = "batch_size cfg"
  let ?L = "map (\<lambda>e. (split_name (fst e), \<lparr>it_dataset = map mk (tl (snd e)), it_batch_size = ?bs\<rparr>))
              (filter (\<lambda>e. endswith (fst e) ''.pt'') d')"
  from create_iterators_loads [OF assms(3)] obtain st0 where
    st0: "iterators st0 = []" and lf: "load_files mk ?bs d' st0 = Inr st"
    by blast
  from load_files_iterators [OF lf] have
    its: "\<forall>s. map_of (iterators st) s =
            (case map_of (rev ?L) s of None \<Rightarrow> map_of (iterators st0) s | Some it \<Rightarrow> Some it)"
    and ne: "\<forall>e\<in>set d'. endswith (fst e) ''.pt'' \<longrightarrow> snd e \<noteq> []"
    by blast+
  from ne assms(4,5) have "lines \<noteq> []" by force
  then obtain l rest where lines: "lines = l # rest"
    by (cases lines) auto
  let ?it = "\<lparr>it_dataset = map mk (tl lines), it_batch_size = ?bs\<rparr>"
  have mem: "(split_name fname, ?it) \<in> set (rev ?L)"
    using assms(4,5) by force
  have un: "\<forall>it'. (split_name fname, it') \<in> set (rev ?L) \<longrightarrow> it' = ?it"
    using assms(6) by force
  have "map_of (rev ?L) (split_name fname) = Some ?it"
    using map_of_unique [OF mem un] .
  then have it: "map_of (iterators st) (split_name fname) =
      Some \<lparr>it_dataset = map mk rest, it_batch_size = ?bs\<rparr>"
    by (simp add: its lines)
  have reg: "\<exists>dest. length dest = length ls \<and> lines = assigned ls dest fname"
    if r: "fname \<in> regular_files cfg"
  proof -
    have "\<forall>v'. (fname, v') \<in> set d' \<longrightarrow> v' = lines"
      using assms(5,6) by force
    with assms(4) have m: "map_of d' fname = Some lines"
      by (rule map_of_unique)
    from create_regular_splits_dest [OF assms(1,2)] obtain dest where
      a: "list_all2 (\<lambda>l p. if is_withheld rs (compiled_withholding rc cfg) l
                          then p = g_path else p \<in> set (s_paths cfg)) ls dest"
      and b: "\<forall>q. map_of d' q =
                 (if q \<in> regular_files cfg
                  then (if assigned ls dest q = [] then None else Some (assigned ls dest q))
                  else map_of d q)"
      by auto
    from b r m have "lines = assigned ls dest fname"
      by (auto split: if_splits)
    moreover from a have "length dest = length ls"
      by (simp add: list_all2_lengthD)
    ultimately show ?thesis by blast
  qed
  from lines it reg show ?thesis by blast
qed


theorem header_skip_drops_first_data_line_witness:
  "create_regular_splits lit_compile lit_search rr_choice demo_withholding_config
       (Some [''source annotation target'', ''w1 x y'', ''a x b'', ''b x c'', ''w2 x z''])
       [(''train.pt'', [''old line''])] 0 =
     Inr ([(''gen.pt'', [''w1 x y'', ''w2 x z'']), (''train.pt'', [''a x b'']),
           (''val.pt'', [''b x c''])], 2)
   \<and> snd (create_iterators (\<lambda>l. l) demo_withholding_config
       [(''gen.pt'', [''w1 x y'', ''w2 x z'']), (''train.pt'', [''a x b'']),
        (''val.pt'', [''b x c''])]) =
     Inr \<lparr>transform_fld = SourceField,
          iterators = [(''gen'', \<lparr>it_dataset = [''w2 x z''], it_batch_size = 2\<rparr>),
                       (''train'', \<lparr>it_dataset = [], it_batch_size = 2\<rparr>),
                       (''val'', \<lparr>it_dataset = [], it_batch_size = 2\<rparr>)],
          in_sample_data = [[], []]\<rparr>
   \<and> (\<exists>l rest. [''w1 x y'', ''w2 x z''] = l # rest
        \<and> map_of [(''gen'', \<lparr>it_dataset = [''w2 x z''], it_batch_size = 2\<rparr>),
                   (''train'', \<lparr>it_dataset = [], it_batch_size = 2\<rparr>),
                   (''val'', \<lparr>it_dataset = [], it_batch_size = 2\<rparr>)] (split_name ''gen.pt'') =
            Some \<lparr>it_dataset = rest, it_batch_size = 2\<rparr>)"
proof -
  let ?D = "[(''gen.pt'', [''w1 x y'', ''w2 x z'']), (''train.pt'', [''a x b'']),
           (''val.pt'', [''b x c''])]"
  have run: "create_regular_splits lit_compile lit_search rr_choice demo_withholding_config
       (Some [''source annotation target'', ''w1 x y'', ''a x b'', ''b x c'', ''w2 x z''])
       [(''train.pt'', [''old line''])] 0 = Inr (?D, 2)"
    by (simp add: create_regular_splits_def prepare_withholding_def demo_withholding_config_def
        lit_compile_def lit_search_def rr_choice_def join_def s_paths_def s_probs_def
        split_path_def g_path_def remove_if_file_def os_remove_def isfile_def append_line_def
        is_withheld_def)
  have its: "snd (create_iterators (\<lambda>l. l) demo_withholding_config ?D) =
     Inr \<lparr>transform_fld = SourceField,
          iterators = [(''gen'', \<lparr>it_dataset = [''w2 x z''], it_batch_size = 2\<rparr>),
                       (''train'', \<lparr>it_dataset = [], it_batch_size = 2\<rparr>),
                       (''val'', \<lparr>it_dataset = [], it_batch_size = 2\<rparr>)],
          in_sample_data = [[], []]\<rparr>"
    by (simp add: create_iterators_def demo_withholding_config_def lower_sequence
        lower_field_words endswith_def split_name_def TabularDataset_def dict_set_def Let_def)
  have mem: "(''gen.pt'', [''w1 x y'', ''w2 x z'']) \<in> set ?D"
    by simp
  have pt: "endswith ''gen.pt'' ''.pt''"
    by (simp add: endswith_def)
  have un: "\<forall>e\<in>set ?D. endswith (fst e) ''.pt'' \<and> split_name (fst e) = split_name ''gen.pt'' \<longrightarrow>
           e = (''gen.pt'', [''w1 x y'', ''w2 x z''])"
    by (simp add: split_name_def)
  have bs: "batch_size demo_withholding_config = 2"
    by (simp add: demo_withholding_config_def)
  from header_skip_drops_first_data_line
    [OF run draws_from_candidates_rr_choice its mem pt un]
  have "\<exists>l rest. [''w1 x y'', ''w2 x z''] = l # rest
        \<and> map_of [(''gen'', \<lparr>it_dataset = [''w2 x z''], it_batch_size = 2\<rparr>),
                   (''train'', \<lparr>it_dataset = [], it_batch_size = 2\<rparr>),
                   (''val'', \<lparr>it_dataset = [], it_batch_size = 2\<rparr>)] (split_name ''gen.pt'') =
            Some \<lparr>it_dataset = rest, it_batch_size = 2\<rparr>"
    unfolding bs by simp
  with run its show ?thesis
    by (intro conjI)
qed

end
